theory Spec2Isabelle
  imports Main "HOL-Library.FSet"
begin

section \<open>Data model of \<^verbatim>\<open>src/library.py\<close>\<close>

text \<open>
  Python strings are modelled as \<^typ>\<open>string\<close>, one \<^typ>\<open>char\<close> for each code point; a
  \<^typ>\<open>char\<close> has eight bits, so the strings of the model are the Python strings whose code
  points are below 256. Python's unbounded integers are modelled as \<^typ>\<open>int\<close>. The only float of the program, \<^verbatim>\<open>DigitalBook.file_size_mb\<close>, is never
  used in a computation by the catalogue classes; it is an element of an opaque type.
\<close>

typedecl py_float

text \<open>
  \<^verbatim>\<open>Book\<close> is a frozen dataclass with the fields \<^verbatim>\<open>title, author, year, genre, isbn\<close>;
  \<^verbatim>\<open>PrintedBook\<close> and \<^verbatim>\<open>DigitalBook\<close> inherit from it and add fields. Dataclass equality
  (and the hash used by \<^verbatim>\<open>set\<close>) compares the class and all fields, which is the
  structural equality of the record below: the subclass and its own fields are the
  component \<open>kind\<close>.
\<close>

datatype book_kind =
    Book
  | PrintedBook (pages: int) (cover_type: string)
  | DigitalBook (file_format: string) (file_size_mb: py_float)

record book =
  title :: string
  author :: string
  year :: int
  genre :: string
  isbn :: string
  kind :: book_kind

text \<open>
  \<^verbatim>\<open>str.lower()\<close> on these strings. Below 256 the code points that \<^verbatim>\<open>str.lower()\<close> changes
  are the capital letters 65 to 90, 192 to 214 and 216 to 222, each mapped to the code
  point 32 above it; 215 (the multiplication sign) and 223 (sharp s) are left as they
  are. The theorems about the index that are not evaluations on the sample books do not
  unfold this definition: they hold for every function in its place.
\<close>

definition lower_char :: "char \<Rightarrow> char" where
  "lower_char c =
     (let n = (of_char c :: nat) in
      if (65 \<le> n \<and> n \<le> 90) \<or> (192 \<le> n \<and> n \<le> 214) \<or> (216 \<le> n \<and> n \<le> 222)
      then char_of (n + 32) else c)"

definition lower :: "string \<Rightarrow> string" where
  "lower s = map lower_char s"

text \<open>The exceptions the classes raise: \<^verbatim>\<open>KeyError\<close> (a keyed lookup or removal that
  misses; the spec's NotFoundError) and \<^verbatim>\<open>IndexError\<close> (a random pop from an empty
  collection; the spec's EmptyCollectionError).\<close>

datatype error = KeyError | IndexError

text \<open>Several methods take \<^verbatim>\<open>book_or_isbn: Book | str\<close> and start with
  \<^verbatim>\<open>isbn = book_or_isbn.isbn if isinstance(book_or_isbn, Book) else book_or_isbn\<close>.\<close>

datatype book_or_isbn = ABook book | AnIsbn string

fun isbn_of :: "book_or_isbn \<Rightarrow> string" where
  "isbn_of (ABook b) = isbn b"
| "isbn_of (AnIsbn i) = i"

subsection \<open>BookCollection\<close>

datatype book_collection = BookCollection (books: "book list")

text \<open>\<^verbatim>\<open>__contains__\<close>: \<^verbatim>\<open>any(book.isbn == isbn for book in self.books)\<close>.\<close>

definition collection_contains :: "book_collection \<Rightarrow> book_or_isbn \<Rightarrow> bool" where
  "collection_contains c x = list_ex (\<lambda>book. isbn book = isbn_of x) (books c)"

text \<open>\<^verbatim>\<open>add\<close>: \<^verbatim>\<open>self.books.append(book)\<close>.\<close>

definition collection_add :: "book_collection \<Rightarrow> book \<Rightarrow> book_collection" where
  "collection_add c book = BookCollection (books c @ [book])"

text \<open>\<^verbatim>\<open>__add__\<close>: a copy of \<open>self\<close> to which the books of \<open>other\<close> are added one by one,
  each only if the collection built so far does not contain its isbn.\<close>

fun add_missing :: "book_collection \<Rightarrow> book list \<Rightarrow> book_collection" where
  "add_missing combined [] = combined"
| "add_missing combined (book # rest) =
     (if \<not> collection_contains combined (ABook book)
      then add_missing (collection_add combined book) rest
      else add_missing combined rest)"

definition collection_plus :: "book_collection \<Rightarrow> book_collection \<Rightarrow> book_collection" where
  "collection_plus self other = add_missing (BookCollection (books self)) (books other)"

text \<open>\<^verbatim>\<open>remove\<close>: the first entry with the isbn is popped and returned; \<^verbatim>\<open>KeyError\<close> when
  the scan ends without a match. \<open>pop_first\<close> is the scan: the entry found and the list
  without it.\<close>

fun pop_first :: "string \<Rightarrow> book list \<Rightarrow> (book \<times> book list) option" where
  "pop_first i [] = None"
| "pop_first i (candidate # rest) =
     (if isbn candidate = i then Some (candidate, rest)
      else (case pop_first i rest of
              None \<Rightarrow> None
            | Some (found, rest') \<Rightarrow> Some (found, candidate # rest')))"

definition collection_remove ::
  "book_collection \<Rightarrow> book_or_isbn \<Rightarrow> (error + book) \<times> book_collection" where
  "collection_remove c x =
     (case pop_first (isbn_of x) (books c) of
        None \<Rightarrow> (Inl KeyError, c)
      | Some (found, rest) \<Rightarrow> (Inr found, BookCollection rest))"

text \<open>\<^verbatim>\<open>pop_random\<close>. The random source is the function \<open>rng\<close>: \<open>rng n\<close> is what
  \<^verbatim>\<open>rng.randrange(n)\<close> returns at this call. \<^verbatim>\<open>list.pop(index)\<close> raises \<^verbatim>\<open>IndexError\<close> for
  an index out of range (which \<^verbatim>\<open>randrange\<close> never returns).\<close>

definition pop_random ::
  "book_collection \<Rightarrow> (nat \<Rightarrow> nat) \<Rightarrow> (error + book) \<times> book_collection" where
  "pop_random c rng =
     (if books c = [] then (Inl IndexError, c)
      else (let index = rng (length (books c)) in
            if index < length (books c)
            then (Inr (books c ! index),
                  BookCollection (take index (books c) @ drop (Suc index) (books c)))
            else (Inl IndexError, c)))"

text \<open>\<^verbatim>\<open>BookCollection(s)\<close> for a Python set \<open>s\<close>: the list of the set's elements in an
  order the language leaves open. The constructor is therefore a relation between the
  set and the collections it may produce.\<close>

definition collection_of_set :: "book fset \<Rightarrow> book_collection \<Rightarrow> bool" where
  "collection_of_set s c \<longleftrightarrow> distinct (books c) \<and> fset_of_list (books c) = s"

subsection \<open>IndexDict\<close>

record index_dict =
  by_isbn :: "string \<rightharpoonup> book"
  by_author :: "string \<rightharpoonup> book fset"
  by_year :: "int \<rightharpoonup> book fset"

definition index_empty :: index_dict where
  "index_empty = \<lparr>by_isbn = Map.empty, by_author = Map.empty, by_year = Map.empty\<rparr>"

text \<open>\<^verbatim>\<open>d.get(key, ())\<close> on a dictionary of sets.\<close>

definition bucket :: "('k \<rightharpoonup> book fset) \<Rightarrow> 'k \<Rightarrow> book fset" where
  "bucket d key = (case d key of None \<Rightarrow> {||} | Some s \<Rightarrow> s)"

text \<open>\<^verbatim>\<open>__contains__\<close>: \<^verbatim>\<open>isbn in self.by_isbn\<close>.\<close>

definition index_contains :: "index_dict \<Rightarrow> book_or_isbn \<Rightarrow> bool" where
  "index_contains idx key \<longleftrightarrow> by_isbn idx (isbn_of key) \<noteq> None"

text \<open>\<^verbatim>\<open>__getitem__\<close> for a \<^verbatim>\<open>str\<close> key: \<^verbatim>\<open>self.by_isbn[key]\<close>.\<close>

definition index_getitem :: "index_dict \<Rightarrow> string \<Rightarrow> error + book" where
  "index_getitem idx key = (case by_isbn idx key of None \<Rightarrow> Inl KeyError | Some b \<Rightarrow> Inr b)"

text \<open>\<^verbatim>\<open>add\<close>: the entry of \<open>by_isbn\<close> is assigned, and the book is added to the sets
  \<^verbatim>\<open>setdefault(key, set())\<close> of its lower-cased author and of its year.\<close>

definition index_add :: "index_dict \<Rightarrow> book \<Rightarrow> index_dict" where
  "index_add idx book =
     idx\<lparr>by_isbn := (by_isbn idx)(isbn book \<mapsto> book),
         by_author := (by_author idx)(lower (author book) \<mapsto>
                         finsert book (bucket (by_author idx) (lower (author book)))),
         by_year := (by_year idx)(year book \<mapsto>
                         finsert book (bucket (by_year idx) (year book)))\<rparr>"

text \<open>The body of \<^verbatim>\<open>remove\<close> for one of the two dictionaries of sets:
  \<^verbatim>\<open>s = d.get(key); if s is not None: s.discard(book); if not s: d.pop(key, None)\<close>.\<close>

definition discard_from :: "('k \<rightharpoonup> book fset) \<Rightarrow> 'k \<Rightarrow> book \<Rightarrow> ('k \<rightharpoonup> book fset)" where
  "discard_from d key book =
     (case d key of
        None \<Rightarrow> d
      | Some s \<Rightarrow> (if s |-| {|book|} = {||} then d(key := None)
                   else d(key \<mapsto> s |-| {|book|})))"

text \<open>\<^verbatim>\<open>remove\<close>: \<^verbatim>\<open>self.by_isbn.pop(isbn)\<close> raises \<^verbatim>\<open>KeyError\<close> on a miss, before anything
  is changed.\<close>

definition index_remove :: "index_dict \<Rightarrow> book_or_isbn \<Rightarrow> (error + book) \<times> index_dict" where
  "index_remove idx x =
     (case by_isbn idx (isbn_of x) of
        None \<Rightarrow> (Inl KeyError, idx)
      | Some book \<Rightarrow>
          (Inr book,
           idx\<lparr>by_isbn := (by_isbn idx)(isbn_of x := None),
               by_author := discard_from (by_author idx) (lower (author book)) book,
               by_year := discard_from (by_year idx) (year book) book\<rparr>))"

text \<open>\<^verbatim>\<open>get_by_author\<close> and \<^verbatim>\<open>get_by_year\<close> build a collection from the set found (or
  from the empty tuple).\<close>

definition get_by_author :: "index_dict \<Rightarrow> string \<Rightarrow> book_collection \<Rightarrow> bool" where
  "get_by_author idx a c \<longleftrightarrow> collection_of_set (bucket (by_author idx) (lower a)) c"

definition get_by_year :: "index_dict \<Rightarrow> int \<Rightarrow> book_collection \<Rightarrow> bool" where
  "get_by_year idx y c \<longleftrightarrow> collection_of_set (bucket (by_year idx) y) c"

text \<open>\<^verbatim>\<open>rebuild\<close>: the three dictionaries are cleared, then every book is added in the
  order of the sequence.\<close>

fun add_each :: "index_dict \<Rightarrow> book list \<Rightarrow> index_dict" where
  "add_each idx [] = idx"
| "add_each idx (book # rest) = add_each (index_add idx book) rest"

definition rebuild :: "index_dict \<Rightarrow> book list \<Rightarrow> index_dict" where
  "rebuild idx bs =
     add_each (idx\<lparr>by_isbn := Map.empty, by_author := Map.empty, by_year := Map.empty\<rparr>) bs"

subsection \<open>Library\<close>

text \<open>The attributes \<^verbatim>\<open>self.books\<close> (a BookCollection) and \<^verbatim>\<open>self.indexes\<close>; the first is
  named \<open>collection\<close> here, \<open>books\<close> being the list inside a collection.\<close>

record library =
  collection :: book_collection
  indexes :: index_dict

text \<open>\<^verbatim>\<open>Library()\<close>.\<close>

definition library_empty :: library where
  "library_empty = \<lparr>collection = BookCollection [], indexes = rebuild index_empty []\<rparr>"

definition add_book :: "library \<Rightarrow> book \<Rightarrow> library" where
  "add_book lib book =
     \<lparr>collection = collection_add (collection lib) book,
      indexes = index_add (indexes lib) book\<rparr>"

text \<open>\<^verbatim>\<open>remove_book\<close>, \<^verbatim>\<open>remove_random\<close>: an exception of the first call leaves the
  method before the second; an exception of the second leaves the collection already
  changed. The state after the call is returned in both cases.\<close>

definition remove_book :: "library \<Rightarrow> string \<Rightarrow> (error + book) \<times> library" where
  "remove_book lib i =
     (case collection_remove (collection lib) (AnIsbn i) of
        (Inl e, c) \<Rightarrow> (Inl e, lib\<lparr>collection := c\<rparr>)
      | (Inr removed, c) \<Rightarrow>
          (case index_remove (indexes lib) (AnIsbn i) of
             (Inl e, idx) \<Rightarrow> (Inl e, \<lparr>collection = c, indexes = idx\<rparr>)
           | (Inr _, idx) \<Rightarrow> (Inr removed, \<lparr>collection = c, indexes = idx\<rparr>)))"

definition remove_random :: "library \<Rightarrow> (nat \<Rightarrow> nat) \<Rightarrow> (error + book) \<times> library" where
  "remove_random lib rng =
     (case pop_random (collection lib) rng of
        (Inl e, c) \<Rightarrow> (Inl e, lib\<lparr>collection := c\<rparr>)
      | (Inr removed, c) \<Rightarrow>
          (case index_remove (indexes lib) (ABook removed) of
             (Inl e, idx) \<Rightarrow> (Inl e, \<lparr>collection = c, indexes = idx\<rparr>)
           | (Inr _, idx) \<Rightarrow> (Inr removed, \<lparr>collection = c, indexes = idx\<rparr>)))"

definition refresh_indexes :: "library \<Rightarrow> library" where
  "refresh_indexes lib = lib\<lparr>indexes := rebuild (indexes lib) (books (collection lib))\<rparr>"

definition find_by_author :: "library \<Rightarrow> string \<Rightarrow> book_collection \<Rightarrow> bool" where
  "find_by_author lib a c \<longleftrightarrow> get_by_author (indexes lib) a c"

definition find_by_year :: "library \<Rightarrow> int \<Rightarrow> book_collection \<Rightarrow> bool" where
  "find_by_year lib y c \<longleftrightarrow> get_by_year (indexes lib) y c"

definition get_by_isbn :: "library \<Rightarrow> string \<Rightarrow> error + book" where
  "get_by_isbn lib i = index_getitem (indexes lib) i"

subsection \<open>Sample books\<close>

text \<open>Concrete books on which the theorems below are instantiated. \<open>book_a\<close> and
  \<open>book_b\<close> carry the same isbn and differ in title, author, year and class.\<close>

definition book_a :: book where
  "book_a = \<lparr>title = ''War and Peace'', author = ''Leo Tolstoy'', year = 1869,
             genre = ''novel'', isbn = ''123'', kind = PrintedBook 150 ''hardcover''\<rparr>"

definition book_b :: book where
  "book_b = \<lparr>title = ''Quiet Don'', author = ''Mikhail Sholokhov'', year = 1940,
             genre = ''novel'', isbn = ''123'', kind = Book\<rparr>"

definition book_c :: book where
  "book_c = \<lparr>title = ''Anna Karenina'', author = ''LEO TOLSTOY'', year = 1878,
             genre = ''novel'', isbn = ''456'', kind = PrintedBook 864 ''paperback''\<rparr>"

subsection \<open>Observations\<close>

text \<open>A full scan of a collection, counting the entries that carry a given isbn.\<close>

definition scan_count :: "book_collection \<Rightarrow> string \<Rightarrow> nat" where
  "scan_count c i = length (filter (\<lambda>book. isbn book = i) (books c))"

text \<open>The concatenation as the specification words it: the elements of \<open>self\<close>, followed
  by the elements of \<open>other\<close> whose isbn is not present in \<open>self\<close>.\<close>

definition concat_spec :: "book_collection \<Rightarrow> book_collection \<Rightarrow> book_collection" where
  "concat_spec self other =
     BookCollection (books self @
       filter (\<lambda>book. \<not> collection_contains self (ABook book)) (books other))"

subsection \<open>Sequences of operations on a library\<close>

text \<open>The mutating methods of \<^verbatim>\<open>Library\<close> as operations; \<open>library_step\<close> is the state after
  the call, whether it returned or raised. \<open>RemoveRandom\<close> carries the random source of
  its call.\<close>

datatype library_op =
    AddBook book
  | RemoveBook string
  | RemoveRandom "nat \<Rightarrow> nat"
  | RefreshIndexes

fun library_step :: "library \<Rightarrow> library_op \<Rightarrow> library" where
  "library_step lib (AddBook b) = add_book lib b"
| "library_step lib (RemoveBook i) = snd (remove_book lib i)"
| "library_step lib (RemoveRandom rng) = snd (remove_random lib rng)"
| "library_step lib RefreshIndexes = refresh_indexes lib"

fun library_run :: "library \<Rightarrow> library_op list \<Rightarrow> library" where
  "library_run lib [] = lib"
| "library_run lib (op # ops) = library_run (library_step lib op) ops"

text \<open>\<open>fresh_adds\<close>: every \<^verbatim>\<open>add_book\<close> of the sequence is called with a book whose isbn the
  index does not contain at that moment, the test \<^verbatim>\<open>add_book_event\<close> makes
  (\<^verbatim>\<open>while candidate.isbn in library.indexes\<close>) before it calls \<^verbatim>\<open>add_book\<close>.\<close>

fun fresh_step :: "library \<Rightarrow> library_op \<Rightarrow> bool" where
  "fresh_step lib (AddBook b) = (\<not> index_contains (indexes lib) (ABook b))"
| "fresh_step lib _ = True"

fun fresh_adds :: "library \<Rightarrow> library_op list \<Rightarrow> bool" where
  "fresh_adds lib [] = True"
| "fresh_adds lib (op # ops) = (fresh_step lib op \<and> fresh_adds (library_step lib op) ops)"

text \<open>The invariant of a library whose isbns are unique: the collection holds every isbn
  once, and \<open>by_isbn\<close> maps exactly the isbns of the collection, each to its book.\<close>

definition isbn_entry :: "book \<Rightarrow> string \<times> book" where
  "isbn_entry b = (isbn b, b)"

definition in_sync :: "library \<Rightarrow> bool" where
  "in_sync lib \<longleftrightarrow>
     distinct (map isbn (books (collection lib))) \<and>
     by_isbn (indexes lib) = map_of (map isbn_entry (books (collection lib)))"

subsection \<open>Sequences of operations on an index\<close>

text \<open>The mutating methods of \<^verbatim>\<open>IndexDict\<close> as operations; \<open>index_step\<close> is the index after
  the call, whether it returned or raised.\<close>

datatype index_op =
    IndexAdd book
  | IndexRemove book_or_isbn
  | IndexRebuild "book list"

fun index_step :: "index_dict \<Rightarrow> index_op \<Rightarrow> index_dict" where
  "index_step idx (IndexAdd b) = index_add idx b"
| "index_step idx (IndexRemove x) = snd (index_remove idx x)"
| "index_step idx (IndexRebuild bs) = rebuild idx bs"

fun index_run :: "index_dict \<Rightarrow> index_op list \<Rightarrow> index_dict" where
  "index_run idx [] = idx"
| "index_run idx (op # ops) = index_run (index_step idx op) ops"

text \<open>What every index built by these operations satisfies, also when an isbn was
  added twice: a book of \<open>by_isbn\<close> is filed under its own isbn and is a member of the
  sets of its author and year, no set is empty, and a set holds only books of its key.\<close>

definition keyed_sets :: "('k \<rightharpoonup> book fset) \<Rightarrow> (book \<Rightarrow> 'k) \<Rightarrow> bool" where
  "keyed_sets d key \<longleftrightarrow> (\<forall>k s. d k = Some s \<longrightarrow> s \<noteq> {||} \<and> (\<forall>b. b |\<in>| s \<longrightarrow> key b = k))"

definition index_sound :: "index_dict \<Rightarrow> bool" where
  "index_sound idx \<longleftrightarrow>
     (\<forall>k b. by_isbn idx k = Some b \<longrightarrow>
        isbn b = k \<and> b |\<in>| bucket (by_author idx) (lower (author b)) \<and>
        b |\<in>| bucket (by_year idx) (year b)) \<and>
     keyed_sets (by_author idx) (\<lambda>b. lower (author b)) \<and>
     keyed_sets (by_year idx) year"

section \<open>Evaluation on the sample books\<close>

lemma lower_samples:
  "lower ''Leo Tolstoy'' = ''leo tolstoy''"
  "lower ''LEO TOLSTOY'' = ''leo tolstoy''"
  "lower ''Mikhail Sholokhov'' = ''mikhail sholokhov''"
  "lower ''leo tolstoy'' = ''leo tolstoy''"
  by code_simp+

lemmas library_defs =
  library_empty_def add_book_def remove_book_def remove_random_def refresh_indexes_def
  collection_add_def collection_remove_def pop_random_def
  index_empty_def index_add_def index_remove_def index_contains_def rebuild_def
  discard_from_def bucket_def

section \<open>Failing removals and pops\<close>

text \<open>
  C10. \<^verbatim>\<open>IndexDict.remove\<close> called with an isbn (or a book whose isbn is) absent from
  \<open>by_isbn\<close> raises \<^verbatim>\<open>KeyError\<close>, and the index after the call is the index before it:
  the three dictionaries are untouched.
\<close>

theorem index_remove_absent:
  "by_isbn idx (isbn_of x) = None \<Longrightarrow> index_remove idx x = (Inl KeyError, idx)"
  by (simp add: index_remove_def)

theorem index_remove_absent_witness:
  "by_isbn (index_add index_empty book_a) (isbn_of (AnIsbn ''999'')) = None \<and>
   index_remove (index_add index_empty book_a) (AnIsbn ''999'')
     = (Inl KeyError, index_add index_empty book_a)"
  using index_remove_absent [of "index_add index_empty book_a" "AnIsbn ''999''"]
  by (simp add: index_add_def index_empty_def book_a_def)

text \<open>
  C9. \<^verbatim>\<open>pop_random\<close> on an empty collection raises \<^verbatim>\<open>IndexError\<close>, whatever the random
  source; \<^verbatim>\<open>Library.remove_random\<close> on a library whose collection is empty raises the
  same \<^verbatim>\<open>IndexError\<close> and leaves the library, collection and index, as it was.
\<close>

theorem empty_pop_random:
  "(books c = [] \<longrightarrow> pop_random c rng = (Inl IndexError, c)) \<and>
   (books (collection lib) = [] \<longrightarrow> remove_random lib rng = (Inl IndexError, lib))"
  by (simp add: pop_random_def remove_random_def)

theorem empty_pop_random_witness:
  "books (BookCollection []) = [] \<and>
   pop_random (BookCollection []) (\<lambda>n. 0) = (Inl IndexError, BookCollection []) \<and>
   books (collection library_empty) = [] \<and>
   remove_random library_empty (\<lambda>n. 0) = (Inl IndexError, library_empty)"
  using empty_pop_random [of "BookCollection []" "\<lambda>n. 0" library_empty]
  by (simp add: library_empty_def)

section \<open>Rebuilding the index\<close>

lemma rebuild_any: "rebuild idx bs = add_each index_empty bs"
  by (cases idx) (simp add: rebuild_def index_empty_def)

lemma add_each_foldl: "add_each idx bs = foldl index_add idx bs"
  by (induction bs arbitrary: idx) simp_all

text \<open>
  C7. \<^verbatim>\<open>refresh_indexes\<close> is idempotent: a second call in a row leaves the library, hence
  \<open>by_isbn\<close>, \<open>by_author\<close> and \<open>by_year\<close>, as the first call left it. The index after a
  call is the empty index to which every book of the collection has been added, in
  the collection's order.
\<close>

theorem refresh_indexes_idempotent:
  "refresh_indexes (refresh_indexes lib) = refresh_indexes lib \<and>
   indexes (refresh_indexes lib) = foldl index_add index_empty (books (collection lib))"
  by (simp add: refresh_indexes_def rebuild_any add_each_foldl)

theorem refresh_indexes_idempotent_witness:
  "refresh_indexes (refresh_indexes (add_book library_empty book_a))
     = refresh_indexes (add_book library_empty book_a) \<and>
   indexes (refresh_indexes (add_book library_empty book_a)) = index_add index_empty book_a"
  using refresh_indexes_idempotent [of "add_book library_empty book_a"]
  by (simp add: add_book_def library_empty_def collection_add_def)

section \<open>Adding a book\<close>

text \<open>
  C4. In an index that holds a book \<open>old\<close> under the isbn \<open>k\<close> (in \<open>by_isbn\<close> and in the
  sets of its author and of its year), \<^verbatim>\<open>IndexDict.add\<close> of a different book \<open>new\<close>
  with the same isbn makes \<open>new\<close> the entry of \<open>by_isbn\<close> for \<open>k\<close>, adds \<open>new\<close> to the
  sets of its own author and year, and leaves \<open>old\<close> in the sets of its author and
  year although \<open>by_isbn\<close> no longer holds it.
\<close>

theorem index_add_same_isbn:
  assumes "by_isbn idx k = Some old"
    and "old |\<in>| bucket (by_author idx) (lower (author old))"
    and "old |\<in>| bucket (by_year idx) (year old)"
    and "isbn new = k"
    and "old \<noteq> new"
  shows "by_isbn (index_add idx new) k = Some new \<and>
         by_isbn (index_add idx new) k \<noteq> Some old \<and>
         new |\<in>| bucket (by_author (index_add idx new)) (lower (author new)) \<and>
         new |\<in>| bucket (by_year (index_add idx new)) (year new) \<and>
         old |\<in>| bucket (by_author (index_add idx new)) (lower (author old)) \<and>
         old |\<in>| bucket (by_year (index_add idx new)) (year old)"
  using assms by (auto simp: index_add_def bucket_def)

theorem index_add_same_isbn_witness:
  "by_isbn (index_add index_empty book_a) ''123'' = Some book_a \<and>
   book_a |\<in>| bucket (by_author (index_add index_empty book_a)) (lower (author book_a)) \<and>
   book_a |\<in>| bucket (by_year (index_add index_empty book_a)) (year book_a) \<and>
   isbn book_b = ''123'' \<and> book_a \<noteq> book_b \<and>
   by_isbn (index_add (index_add index_empty book_a) book_b) ''123'' = Some book_b \<and>
   book_a |\<in>| bucket (by_author (index_add (index_add index_empty book_a) book_b))
                (lower (author book_a)) \<and>
   book_a |\<in>| bucket (by_year (index_add (index_add index_empty book_a) book_b))
                (year book_a)"
proof -
  have h1: "by_isbn (index_add index_empty book_a) ''123'' = Some book_a"
    by (simp add: index_add_def book_a_def)
  have h2: "book_a |\<in>| bucket (by_author (index_add index_empty book_a)) (lower (author book_a))"
    by (simp add: index_add_def bucket_def)
  have h3: "book_a |\<in>| bucket (by_year (index_add index_empty book_a)) (year book_a)"
    by (simp add: index_add_def bucket_def)
  have h4: "isbn book_b = ''123''" by (simp add: book_b_def)
  have h5: "book_a \<noteq> book_b" by (simp add: book_a_def book_b_def)
  from index_add_same_isbn [OF h1 h2 h3 h4 h5] h1 h2 h3 h4 h5 show ?thesis by simp
qed

text \<open>
  C2, amended. After \<^verbatim>\<open>Library.add_book(b)\<close>, in every library, \<^verbatim>\<open>get_by_isbn(b.isbn)\<close>
  returns \<open>b\<close>, and a full scan of the collection finds one more entry with the isbn of
  \<open>b\<close> than before the call: exactly one when the collection held none before.
\<close>

theorem add_book_then_lookup:
  "get_by_isbn (add_book lib b) (isbn b) = Inr b \<and>
   scan_count (collection (add_book lib b)) (isbn b)
     = Suc (scan_count (collection lib) (isbn b)) \<and>
   (\<not> collection_contains (collection lib) (AnIsbn (isbn b)) \<longrightarrow>
      scan_count (collection (add_book lib b)) (isbn b) = 1)"
  by (auto simp: get_by_isbn_def add_book_def index_getitem_def index_add_def scan_count_def
      collection_add_def collection_contains_def list_ex_iff filter_empty_conv)

theorem add_book_then_lookup_witness:
  "\<not> collection_contains (collection library_empty) (AnIsbn (isbn book_a)) \<and>
   get_by_isbn (add_book library_empty book_a) (isbn book_a) = Inr book_a \<and>
   scan_count (collection (add_book library_empty book_a)) (isbn book_a) = 1"
  using add_book_then_lookup [of library_empty book_a]
  by (simp add: library_empty_def collection_contains_def)

text \<open>C2 as stated fails in a library that already holds the book: the scan finds two
  entries.\<close>

theorem add_book_twice_counterexample:
  "scan_count (collection (add_book (add_book library_empty book_a) book_a)) (isbn book_a) = 2"
  by (simp add: add_book_def library_empty_def collection_add_def scan_count_def)

section \<open>Removing a book\<close>

lemma pop_first_None: "pop_first i bs = None \<longleftrightarrow> i \<notin> isbn ` set bs"
  by (induction bs) (auto split: option.splits)

lemma pop_first_Some:
  "pop_first i bs = Some (found, rest) \<Longrightarrow>
     isbn found = i \<and>
     (\<exists>pre post. bs = pre @ found # post \<and> rest = pre @ post \<and> i \<notin> isbn ` set pre)"
proof (induction bs arbitrary: found rest)
  case Nil
  then show ?case by simp
next
  case (Cons c cs)
  show ?case
  proof (cases "isbn c = i")
    case True
    with Cons.prems have "found = c" "rest = cs" by simp_all
    with True have "isbn found = i" "c # cs = [] @ found # cs" "rest = [] @ cs"
      "i \<notin> isbn ` set []" by simp_all
    then show ?thesis by blast
  next
    case False
    with Cons.prems obtain r where r: "pop_first i cs = Some (found, r)" "rest = c # r"
      by (auto split: option.splits)
    from Cons.IH [OF r(1)] obtain pre post
      where "isbn found = i" "cs = pre @ found # post" "r = pre @ post" "i \<notin> isbn ` set pre"
      by blast
    with False r(2) have "isbn found = i" "c # cs = (c # pre) @ found # post"
      "rest = (c # pre) @ post" "i \<notin> isbn ` set (c # pre)" by auto
    then show ?thesis by blast
  qed
qed

lemma scan_count_le_1_split:
  assumes "length (filter (\<lambda>b. isbn b = i) (pre @ found # post)) \<le> 1" "isbn found = i"
  shows "i \<notin> isbn ` set (pre @ post)"
proof -
  from assms have "filter (\<lambda>b. isbn b = i) pre = [] \<and> filter (\<lambda>b. isbn b = i) post = []"
    by simp
  then show ?thesis by (auto simp: filter_empty_conv)
qed

lemma remove_book_Inr:
  assumes "remove_book lib i = (Inr removed, lib')"
  shows "\<exists>rest old. pop_first i (books (collection lib)) = Some (removed, rest) \<and>
           by_isbn (indexes lib) i = Some old \<and>
           collection lib' = BookCollection rest \<and>
           indexes lib' = snd (index_remove (indexes lib) (AnIsbn i))"
  using assms
  by (auto simp: remove_book_def collection_remove_def index_remove_def
      split: option.splits prod.splits sum.splits)

lemma remove_book_absent:
  "i \<notin> isbn ` set (books (collection lib)) \<Longrightarrow> remove_book lib i = (Inl KeyError, lib)"
  by (simp add: remove_book_def collection_remove_def pop_first_None [THEN iffD2])

text \<open>
  C3, amended. After a successful \<^verbatim>\<open>remove_book(i)\<close> the index does not contain \<open>i\<close> and
  \<^verbatim>\<open>get_by_isbn(i)\<close> raises \<^verbatim>\<open>KeyError\<close>. If, moreover, the collection held at most one
  entry with the isbn \<open>i\<close> before the call, the collection does not contain \<open>i\<close> after
  it, and a second \<^verbatim>\<open>remove_book(i)\<close> raises \<^verbatim>\<open>KeyError\<close> and leaves the library as it is.
  After \<^verbatim>\<open>add_book(b)\<close> on a library whose collection does not contain the isbn of \<open>b\<close>,
  the first \<^verbatim>\<open>remove_book(b.isbn)\<close> succeeds and returns \<open>b\<close>, and the second raises
  \<^verbatim>\<open>KeyError\<close>.
\<close>

theorem remove_book_twice:
  "(remove_book lib i = (Inr removed, lib') \<longrightarrow>
      \<not> index_contains (indexes lib') (AnIsbn i) \<and> get_by_isbn lib' i = Inl KeyError) \<and>
   (remove_book lib i = (Inr removed, lib') \<and> scan_count (collection lib) i \<le> 1 \<longrightarrow>
      \<not> collection_contains (collection lib') (AnIsbn i) \<and>
      remove_book lib' i = (Inl KeyError, lib')) \<and>
   (\<not> collection_contains (collection lib0) (AnIsbn (isbn b)) \<longrightarrow>
      fst (remove_book (add_book lib0 b) (isbn b)) = Inr b \<and>
      remove_book (snd (remove_book (add_book lib0 b) (isbn b))) (isbn b)
        = (Inl KeyError, snd (remove_book (add_book lib0 b) (isbn b))))"
proof (intro conjI impI)
  assume ok: "remove_book lib i = (Inr removed, lib')"
  from remove_book_Inr [OF ok] obtain rest old where
    "by_isbn (indexes lib) i = Some old"
    "indexes lib' = snd (index_remove (indexes lib) (AnIsbn i))" by blast
  then have gone: "by_isbn (indexes lib') i = None"
    by (simp add: index_remove_def)
  then show "\<not> index_contains (indexes lib') (AnIsbn i)"
    by (simp add: index_contains_def)
  from gone show "get_by_isbn lib' i = Inl KeyError"
    by (simp add: get_by_isbn_def index_getitem_def)
next
  assume a: "remove_book lib i = (Inr removed, lib') \<and> scan_count (collection lib) i \<le> 1"
  from remove_book_Inr [of lib i removed lib'] a obtain rest where
    p: "pop_first i (books (collection lib)) = Some (removed, rest)"
    and c: "collection lib' = BookCollection rest" by blast
  from pop_first_Some [OF p] obtain pre post where
    s: "isbn removed = i" "books (collection lib) = pre @ removed # post" "rest = pre @ post"
    by blast
  from a s have absent: "i \<notin> isbn ` set rest"
    using scan_count_le_1_split [of i pre removed post] by (simp add: scan_count_def)
  with c show "\<not> collection_contains (collection lib') (AnIsbn i)"
    by (auto simp: collection_contains_def list_ex_iff)
  from absent c show "remove_book lib' i = (Inl KeyError, lib')"
    by (simp add: remove_book_absent)
next
  assume fresh: "\<not> collection_contains (collection lib0) (AnIsbn (isbn b))"
  then have n: "isbn b \<notin> isbn ` set (books (collection lib0))"
    by (auto simp: collection_contains_def list_ex_iff)
  have p: "pop_first (isbn b) (bs @ [b]) = Some (b, bs)" if "isbn b \<notin> isbn ` set bs" for bs
    using that by (induction bs) auto
  have r: "remove_book (add_book lib0 b) (isbn b)
             = (Inr b, \<lparr>collection = BookCollection (books (collection lib0)),
                        indexes = snd (index_remove (index_add (indexes lib0) b) (AnIsbn (isbn b)))\<rparr>)"
    using p [OF n]
    by (simp add: remove_book_def add_book_def collection_remove_def collection_add_def
        index_remove_def index_add_def)
  show "fst (remove_book (add_book lib0 b) (isbn b)) = Inr b"
    by (simp add: r)
  show "remove_book (snd (remove_book (add_book lib0 b) (isbn b))) (isbn b)
        = (Inl KeyError, snd (remove_book (add_book lib0 b) (isbn b)))"
    using n by (simp add: r remove_book_absent)
qed

theorem remove_book_twice_witness:
  "remove_book (add_book library_empty book_a) ''123'' = (Inr book_a, library_empty) \<and>
   scan_count (collection (add_book library_empty book_a)) ''123'' \<le> 1 \<and>
   \<not> collection_contains (collection library_empty) (AnIsbn (isbn book_a)) \<and>
   \<not> index_contains (indexes library_empty) (AnIsbn ''123'') \<and>
   get_by_isbn library_empty ''123'' = Inl KeyError \<and>
   remove_book library_empty ''123'' = (Inl KeyError, library_empty)"
proof -
  have h1: "remove_book (add_book library_empty book_a) ''123'' = (Inr book_a, library_empty)"
    by (simp add: remove_book_def add_book_def library_empty_def collection_remove_def
        collection_add_def index_remove_def index_add_def rebuild_def index_empty_def
        discard_from_def bucket_def book_a_def)
  have h2: "scan_count (collection (add_book library_empty book_a)) ''123'' \<le> 1"
    by (simp add: scan_count_def add_book_def library_empty_def collection_add_def)
  have h3: "\<not> collection_contains (collection library_empty) (AnIsbn (isbn book_a))"
    by (simp add: collection_contains_def library_empty_def)
  from remove_book_twice [of "add_book library_empty book_a" "''123''" book_a library_empty
      library_empty book_a] h1 h2 h3
  show ?thesis by simp
qed

text \<open>C3 as stated fails in a library to which the same book was added twice: the
  call succeeds and the collection still contains the isbn.\<close>

theorem remove_book_duplicate_counterexample:
  "fst (remove_book (add_book (add_book library_empty book_a) book_a) ''123'') = Inr book_a \<and>
   collection_contains
     (collection (snd (remove_book (add_book (add_book library_empty book_a) book_a) ''123'')))
     (AnIsbn ''123'')"
  by (simp add: remove_book_def add_book_def library_empty_def collection_remove_def
      collection_add_def index_remove_def index_add_def rebuild_def index_empty_def
      collection_contains_def book_a_def)

section \<open>Concatenation of collections\<close>

lemma collection_contains_iff:
  "collection_contains c x \<longleftrightarrow> isbn_of x \<in> isbn ` set (books c)"
  unfolding collection_contains_def list_ex_iff image_iff by metis

lemma add_missing_Cons:
  "add_missing (BookCollection comb) (x # xs) =
     (if isbn x \<in> isbn ` set comb then add_missing (BookCollection comb) xs
      else add_missing (BookCollection (comb @ [x])) xs)"
  by (simp add: collection_contains_iff collection_add_def)

lemma add_missing_books:
  "books (add_missing (BookCollection comb) bs) =
     comb @ map (nth bs)
       (filter (\<lambda>j. isbn (bs ! j) \<notin> isbn ` set (comb @ take j bs)) [0..<length bs])"
proof (induction bs arbitrary: comb)
  case Nil
  then show ?case by simp
next
  case (Cons x xs)
  have upt: "[0..<length (x # xs)] = 0 # map Suc [0..<length xs]"
    by (simp add: upt_conv_Cons map_Suc_upt del: upt_Suc)
  show ?case
  proof (cases "isbn x \<in> isbn ` set comb")
    case True
    then have step: "add_missing (BookCollection comb) (x # xs) = add_missing (BookCollection comb) xs"
      by (simp add: collection_contains_iff collection_add_def)
    have cond: "isbn (xs ! j) \<notin> isbn ` set (comb @ x # take j xs) \<longleftrightarrow>
                isbn (xs ! j) \<notin> isbn ` set (comb @ take j xs)" for j
      using True by auto
    have "filter (\<lambda>j. isbn (xs ! j) \<notin> isbn ` set (comb @ x # take j xs)) [0..<length xs]
          = filter (\<lambda>j. isbn (xs ! j) \<notin> isbn ` set (comb @ take j xs)) [0..<length xs]"
      by (rule filter_cong) (simp_all only: cond)
    then show ?thesis
      unfolding step Cons.IH upt
      using True by (simp add: filter_map comp_def)
  next
    case False
    then have step: "add_missing (BookCollection comb) (x # xs)
                     = add_missing (BookCollection (comb @ [x])) xs"
      by (simp add: collection_contains_iff collection_add_def)
    show ?thesis
      unfolding step Cons.IH upt
      using False by (simp add: filter_map comp_def)
  qed
qed

lemma add_missing_distinct:
  "distinct (map isbn bs) \<Longrightarrow>
   books (add_missing (BookCollection comb) bs) =
     comb @ filter (\<lambda>b. isbn b \<notin> isbn ` set comb) bs"
proof (induction bs arbitrary: comb)
  case Nil
  then show ?case by simp
next
  case (Cons x xs)
  show ?case
  proof (cases "isbn x \<in> isbn ` set comb")
    case True
    then have "add_missing (BookCollection comb) (x # xs) = add_missing (BookCollection comb) xs"
      by (simp add: collection_contains_iff collection_add_def)
    with Cons True show ?thesis by simp
  next
    case False
    then have step: "add_missing (BookCollection comb) (x # xs)
                     = add_missing (BookCollection (comb @ [x])) xs"
      by (simp add: collection_contains_iff collection_add_def)
    from Cons.prems have "isbn x \<notin> isbn ` set xs" "distinct (map isbn xs)" by auto
    then have ne: "isbn b \<noteq> isbn x" if "b \<in> set xs" for b
      using that by (metis imageI)
    have "filter (\<lambda>b. isbn b \<notin> isbn ` set (comb @ [x])) xs
               = filter (\<lambda>b. isbn b \<notin> isbn ` set comb) xs"
      by (rule filter_cong) (simp_all add: ne)
    with Cons.IH [of "comb @ [x]"] \<open>distinct (map isbn xs)\<close> False step
    show ?thesis by simp
  qed
qed

text \<open>
  C6, amended. \<open>A + B\<close> consists of the elements of \<open>A\<close> in their order, followed by the
  elements of \<open>B\<close>, in the order of \<open>B\<close>, whose isbn is carried neither by an element of
  \<open>A\<close> nor by an earlier element of \<open>B\<close>. Hence the length of \<open>A + B\<close> is at most the
  sum of the lengths, every isbn of \<open>A + B\<close> is one of \<open>A\<close> or of \<open>B\<close>, and when the
  isbns of \<open>B\<close> are pairwise distinct, \<open>A + B\<close> is the concatenation as the
  specification words it.
\<close>

theorem collection_plus_first_occurrences:
  "books (collection_plus A B) =
     books A @ map (nth (books B))
       (filter (\<lambda>j. isbn (books B ! j) \<notin> isbn ` set (books A @ take j (books B)))
          [0..<length (books B)]) \<and>
   length (books (collection_plus A B)) \<le> length (books A) + length (books B) \<and>
   isbn ` set (books (collection_plus A B)) \<subseteq> isbn ` set (books A) \<union> isbn ` set (books B) \<and>
   (distinct (map isbn (books B)) \<longrightarrow> collection_plus A B = concat_spec A B)"
proof (intro conjI impI)
  let ?js = "filter (\<lambda>j. isbn (books B ! j) \<notin> isbn ` set (books A @ take j (books B)))
               [0..<length (books B)]"
  show eq: "books (collection_plus A B) = books A @ map (nth (books B)) ?js"
    using add_missing_books [of "books A" "books B"] by (simp add: collection_plus_def)
  have "length ?js \<le> length [0..<length (books B)]"
    by (rule length_filter_le)
  then show "length (books (collection_plus A B)) \<le> length (books A) + length (books B)"
    by (simp add: eq)
  have "set (map (nth (books B)) ?js) \<subseteq> set (books B)"
    by auto
  then show "isbn ` set (books (collection_plus A B)) \<subseteq> isbn ` set (books A) \<union> isbn ` set (books B)"
    unfolding eq by auto
next
  assume "distinct (map isbn (books B))"
  then have "books (collection_plus A B) = books (concat_spec A B)"
    using add_missing_distinct [of "books B" "books A"]
    by (simp add: collection_plus_def concat_spec_def collection_contains_iff)
  then show "collection_plus A B = concat_spec A B"
    by (simp add: book_collection.expand)
qed

theorem collection_plus_first_occurrences_witness:
  "distinct (map isbn (books (BookCollection [book_b, book_c]))) \<and>
   collection_plus (BookCollection [book_a]) (BookCollection [book_b, book_c])
     = BookCollection [book_a, book_c] \<and>
   concat_spec (BookCollection [book_a]) (BookCollection [book_b, book_c])
     = BookCollection [book_a, book_c] \<and>
   books (collection_plus (BookCollection []) (BookCollection [book_a, book_b, book_c]))
     = [book_a, book_c]"
proof -
  have d: "distinct (map isbn (books (BookCollection [book_b, book_c])))"
    by (simp add: book_b_def book_c_def)
  have c: "concat_spec (BookCollection [book_a]) (BookCollection [book_b, book_c])
     = BookCollection [book_a, book_c]"
    by (simp add: concat_spec_def collection_contains_def book_a_def book_b_def book_c_def)
  have js: "[0..<length (books (BookCollection [book_a, book_b, book_c]))] = [0, 1, 2]"
    by (simp add: upt_rec)
  from collection_plus_first_occurrences [of "BookCollection [book_a]" "BookCollection [book_b, book_c]"]
    d c
  have 1: "collection_plus (BookCollection [book_a]) (BookCollection [book_b, book_c])
     = BookCollection [book_a, book_c]" by simp
  from collection_plus_first_occurrences [of "BookCollection []" "BookCollection [book_a, book_b, book_c]"]
  have 2: "books (collection_plus (BookCollection []) (BookCollection [book_a, book_b, book_c]))
     = [book_a, book_c]"
    unfolding js by (simp add: book_a_def book_b_def book_c_def)
  from d c 1 2 show ?thesis by simp
qed

text \<open>C6 as stated fails when \<open>B\<close> repeats an isbn that \<open>A\<close> does not hold: the second
  entry is not added.\<close>

theorem collection_plus_counterexample:
  "books (collection_plus (BookCollection []) (BookCollection [book_a, book_a])) = [book_a] \<and>
   books (concat_spec (BookCollection []) (BookCollection [book_a, book_a])) = [book_a, book_a] \<and>
   collection_plus (BookCollection []) (BookCollection [book_a, book_a])
     \<noteq> concat_spec (BookCollection []) (BookCollection [book_a, book_a])"
  by (simp add: collection_plus_def concat_spec_def collection_contains_def collection_add_def)

section \<open>Collection and index of a library\<close>

lemma map_fst_isbn_entry: "map fst (map isbn_entry bs) = map isbn bs"
  by (simp add: isbn_entry_def)

lemma in_sync_dom:
  "in_sync lib \<Longrightarrow> dom (by_isbn (indexes lib)) = isbn ` set (books (collection lib))"
  by (simp add: in_sync_def dom_map_of_conv_image_fst image_image isbn_entry_def)

lemma by_isbn_index_remove:
  "by_isbn (indexes lib) (isbn_of x) \<noteq> None \<Longrightarrow>
   by_isbn (snd (index_remove (indexes lib) x)) = (by_isbn (indexes lib))(isbn_of x := None)"
  by (auto simp: index_remove_def)

lemma map_of_drop_entry:
  assumes "distinct (map isbn (pre @ x # post))"
  shows "map_of (map isbn_entry (pre @ post))
         = (map_of (map isbn_entry (pre @ x # post)))(isbn x := None)"
proof
  fix k
  from assms have nx: "isbn x \<notin> isbn ` set pre" "isbn x \<notin> isbn ` set post" by auto
  have none: "map_of (map isbn_entry ys) (isbn x) = None" if "isbn x \<notin> isbn ` set ys" for ys
    using that by (simp add: map_of_eq_None_iff image_image isbn_entry_def)
  show "map_of (map isbn_entry (pre @ post)) k
        = ((map_of (map isbn_entry (pre @ x # post)))(isbn x := None)) k"
    using none [OF nx(1)] none [OF nx(2)]
    by (auto simp: map_add_def isbn_entry_def split: option.splits)
qed

lemma in_sync_drop:
  assumes "in_sync lib" "books (collection lib) = pre @ x # post"
    "collection lib' = BookCollection (pre @ post)"
    "by_isbn (indexes lib') = (by_isbn (indexes lib))(isbn x := None)"
  shows "in_sync lib'"
proof -
  from assms(1,2) have d: "distinct (map isbn (pre @ x # post))" by (simp add: in_sync_def)
  then have "distinct (map isbn (pre @ post))" by auto
  moreover have "by_isbn (indexes lib') = map_of (map isbn_entry (pre @ post))"
    using assms map_of_drop_entry [OF d] by (simp add: in_sync_def)
  ultimately show ?thesis using assms(3) by (simp add: in_sync_def)
qed

lemma in_sync_add_book:
  assumes "in_sync lib" "\<not> index_contains (indexes lib) (ABook b)"
  shows "in_sync (add_book lib b)"
proof -
  from assms have n: "isbn b \<notin> isbn ` set (books (collection lib))"
    using in_sync_dom [OF assms(1)] by (auto simp: index_contains_def)
  have "(map_of (map isbn_entry bs))(isbn b \<mapsto> b) = map_of (map isbn_entry (bs @ [b]))"
    if "isbn b \<notin> isbn ` set bs" for bs
  proof
    fix k
    show "((map_of (map isbn_entry bs))(isbn b \<mapsto> b)) k
          = map_of (map isbn_entry (bs @ [b])) k"
    proof -
      from that have "map_of (map isbn_entry bs) (isbn b) = None"
        by (simp add: map_of_eq_None_iff image_image isbn_entry_def)
      then show ?thesis
        by (auto simp: map_add_def isbn_entry_def split: option.splits)
    qed
  qed
  with assms(1) n show ?thesis
    by (auto simp: in_sync_def add_book_def collection_add_def index_add_def)
qed

lemma in_sync_remove_book:
  assumes "in_sync lib"
  shows "in_sync (snd (remove_book lib i))"
proof (cases "pop_first i (books (collection lib))")
  case None
  then have "remove_book lib i = (Inl KeyError, lib)"
    by (simp add: remove_book_absent pop_first_None)
  with assms show ?thesis by simp
next
  case (Some p)
  obtain found rest where p: "p = (found, rest)" by (cases p)
  from pop_first_Some [OF Some [unfolded p]] obtain pre post where
    s: "isbn found = i" "books (collection lib) = pre @ found # post" "rest = pre @ post"
    by blast
  then have "i \<in> isbn ` set (books (collection lib))" by auto
  with in_sync_dom [OF assms] obtain old where old: "by_isbn (indexes lib) i = Some old"
    by auto
  let ?lib' = "snd (remove_book lib i)"
  have c: "collection ?lib' = BookCollection (pre @ post)"
    using Some p s old
    by (simp add: remove_book_def collection_remove_def index_remove_def)
  have "indexes ?lib' = snd (index_remove (indexes lib) (AnIsbn i))"
    using Some p old
    by (simp add: remove_book_def collection_remove_def index_remove_def)
  then have "by_isbn (indexes ?lib') = (by_isbn (indexes lib))(isbn found := None)"
    using by_isbn_index_remove [of lib "AnIsbn i"] old s(1) by simp
  with in_sync_drop [OF assms s(2) c] show ?thesis by simp
qed

lemma in_sync_remove_random:
  assumes "in_sync lib"
  shows "in_sync (snd (remove_random lib rng))"
proof (cases "books (collection lib) \<noteq> [] \<and> rng (length (books (collection lib))) < length (books (collection lib))")
  case False
  then have "remove_random lib rng = (Inl IndexError, lib)"
    by (auto simp: remove_random_def pop_random_def Let_def)
  with assms show ?thesis by simp
next
  case True
  define n where "n = rng (length (books (collection lib)))"
  define bs where "bs = books (collection lib)"
  from True have n: "n < length bs" "bs \<noteq> []" by (simp_all add: n_def bs_def)
  have split: "bs = take n bs @ (bs ! n) # drop (Suc n) bs"
    using n(1) by (rule id_take_nth_drop)
  have pop: "pop_random (collection lib) rng
             = (Inr (bs ! n), BookCollection (take n bs @ drop (Suc n) bs))"
    using n by (simp add: pop_random_def Let_def n_def bs_def)
  have "isbn (bs ! n) \<in> isbn ` set bs" using n(1) by simp
  with in_sync_dom [OF assms] obtain old where old: "by_isbn (indexes lib) (isbn (bs ! n)) = Some old"
    by (auto simp: bs_def)
  let ?lib' = "snd (remove_random lib rng)"
  have c: "collection ?lib' = BookCollection (take n bs @ drop (Suc n) bs)"
    using pop old by (simp add: remove_random_def index_remove_def)
  have "indexes ?lib' = snd (index_remove (indexes lib) (ABook (bs ! n)))"
    using pop old by (simp add: remove_random_def index_remove_def)
  then have "by_isbn (indexes ?lib') = (by_isbn (indexes lib))(isbn (bs ! n) := None)"
    using by_isbn_index_remove [of lib "ABook (bs ! n)"] old by simp
  moreover have "books (collection lib) = take n bs @ (bs ! n) # drop (Suc n) bs"
    using split by (simp add: bs_def)
  ultimately show ?thesis
    using in_sync_drop [OF assms _ c] by blast
qed

lemma by_isbn_add_each:
  "by_isbn (add_each idx bs) = by_isbn idx ++ map_of (rev (map isbn_entry bs))"
proof (induction bs arbitrary: idx)
  case Nil
  then show ?case by simp
next
  case (Cons b bs)
  have h: "by_isbn (index_add idx b) = (by_isbn idx)(isbn b \<mapsto> b)"
    by (simp add: index_add_def)
  have e: "map_of [isbn_entry b] = [isbn b \<mapsto> b]"
    by (simp add: isbn_entry_def)
  have "by_isbn (add_each idx (b # bs))
        = (by_isbn idx)(isbn b \<mapsto> b) ++ map_of (rev (map isbn_entry bs))"
    by (simp only: add_each.simps Cons.IH h)
  also have "\<dots> = (by_isbn idx ++ map_of [isbn_entry b]) ++ map_of (rev (map isbn_entry bs))"
    unfolding e by simp
  also have "\<dots> = by_isbn idx ++ map_of (rev (map isbn_entry (b # bs)))"
    by (simp del: map_of.simps)
  finally show ?case .
qed

lemma in_sync_refresh:
  assumes "in_sync lib"
  shows "in_sync (refresh_indexes lib)"
proof -
  have d: "distinct (map fst (map isbn_entry (books (collection lib))))"
    using assms by (simp only: in_sync_def map_fst_isbn_entry)
  then have "distinct (map fst (rev (map isbn_entry (books (collection lib)))))"
    by (simp only: rev_map [symmetric] distinct_rev)
  from map_of_inject_set [OF this d]
  have "map_of (rev (map isbn_entry (books (collection lib))))
             = map_of (map isbn_entry (books (collection lib)))"
    by simp
  with assms show ?thesis
    by (simp add: in_sync_def refresh_indexes_def rebuild_any by_isbn_add_each index_empty_def)
qed

lemma in_sync_empty: "in_sync library_empty"
  by (simp add: in_sync_def library_empty_def rebuild_def index_empty_def)

lemma in_sync_library_step:
  "in_sync lib \<Longrightarrow> fresh_step lib op \<Longrightarrow> in_sync (library_step lib op)"
  by (cases op)
    (simp_all add: in_sync_add_book in_sync_remove_book in_sync_remove_random in_sync_refresh)

lemma in_sync_library_run:
  "in_sync lib \<Longrightarrow> fresh_adds lib ops \<Longrightarrow> in_sync (library_run lib ops)"
  by (induction ops arbitrary: lib) (simp_all add: in_sync_library_step)

text \<open>
  C1, amended. In every library reached from the empty library by a sequence of
  \<^verbatim>\<open>add_book\<close>, \<^verbatim>\<open>remove_book\<close>, \<^verbatim>\<open>remove_random\<close> and \<^verbatim>\<open>refresh_indexes\<close> calls in which every
  \<^verbatim>\<open>add_book\<close> is given a book whose isbn the index does not contain, the set of isbns of
  the collection is the set of keys of \<open>by_isbn\<close>; and every further such operation,
  returning or raising, leaves the two sets equal.
\<close>

theorem fresh_adds_keep_ids_equal:
  assumes "fresh_adds library_empty ops"
  shows "isbn ` set (books (collection (library_run library_empty ops)))
           = dom (by_isbn (indexes (library_run library_empty ops))) \<and>
         (fresh_step (library_run library_empty ops) op \<longrightarrow>
            isbn ` set (books (collection (library_step (library_run library_empty ops) op)))
              = dom (by_isbn (indexes (library_step (library_run library_empty ops) op))))"
proof -
  have "in_sync (library_run library_empty ops)"
    using in_sync_empty assms by (rule in_sync_library_run)
  then show ?thesis
    using in_sync_library_step [of "library_run library_empty ops" op]
    by (simp add: in_sync_dom)
qed

theorem fresh_adds_keep_ids_equal_witness:
  "fresh_adds library_empty
     [AddBook book_a, AddBook book_c, RemoveRandom (\<lambda>n. 0), RefreshIndexes] \<and>
   fresh_step
     (library_run library_empty
        [AddBook book_a, AddBook book_c, RemoveRandom (\<lambda>n. 0), RefreshIndexes])
     (RemoveBook ''456'') \<and>
   isbn ` set (books (collection (library_run library_empty
     [AddBook book_a, AddBook book_c, RemoveRandom (\<lambda>n. 0), RefreshIndexes])))
   = dom (by_isbn (indexes (library_run library_empty
     [AddBook book_a, AddBook book_c, RemoveRandom (\<lambda>n. 0), RefreshIndexes]))) \<and>
   isbn ` set (books (collection (library_run library_empty
     [AddBook book_a, AddBook book_c, RemoveRandom (\<lambda>n. 0), RefreshIndexes, RemoveBook ''456''])))
   = dom (by_isbn (indexes (library_run library_empty
     [AddBook book_a, AddBook book_c, RemoveRandom (\<lambda>n. 0), RefreshIndexes, RemoveBook ''456''])))"
proof -
  have h: "fresh_adds library_empty
     [AddBook book_a, AddBook book_c, RemoveRandom (\<lambda>n. 0), RefreshIndexes]"
    by (simp add: library_defs book_a_def book_c_def)
  from fresh_adds_keep_ids_equal [OF h, of "RemoveBook ''456''"] h
  show ?thesis by simp
qed

text \<open>C1 as stated fails: after the same book is added twice, \<^verbatim>\<open>remove_book\<close> takes one
  entry out of the collection and the only entry out of \<open>by_isbn\<close>.\<close>

theorem duplicate_add_counterexample:
  "books (collection (library_run library_empty
      [AddBook book_a, AddBook book_a, RemoveBook ''123''])) = [book_a] \<and>
   by_isbn (indexes (library_run library_empty
      [AddBook book_a, AddBook book_a, RemoveBook ''123''])) = Map.empty \<and>
   isbn ` set (books (collection (library_run library_empty
      [AddBook book_a, AddBook book_a, RemoveBook ''123''])))
   \<noteq> dom (by_isbn (indexes (library_run library_empty
      [AddBook book_a, AddBook book_a, RemoveBook ''123''])))"
  by (simp add: library_defs book_a_def)

section \<open>Indexes built by add, remove and rebuild\<close>

lemma keyed_sets_insert:
  "keyed_sets d key \<Longrightarrow> keyed_sets (d(key b \<mapsto> finsert b (bucket d (key b)))) key"
  by (auto simp: keyed_sets_def bucket_def split: option.splits)

lemma bucket_insert_mono:
  "x |\<in>| bucket d k' \<Longrightarrow> x |\<in>| bucket (d(k \<mapsto> finsert b (bucket d k))) k'"
  by (auto simp: bucket_def)

lemma bucket_insert_self: "b |\<in>| bucket (d(k \<mapsto> finsert b (bucket d k))) k"
  by (simp add: bucket_def)

lemma keyed_sets_discard:
  "keyed_sets d key \<Longrightarrow> keyed_sets (discard_from d k b) key"
  by (auto simp: keyed_sets_def discard_from_def split: option.splits if_splits)

lemma bucket_discard:
  "x \<noteq> b \<Longrightarrow> x |\<in>| bucket d k' \<Longrightarrow> x |\<in>| bucket (discard_from d k b) k'"
  by (auto simp: bucket_def discard_from_def split: option.splits)

lemma index_sound_empty: "index_sound index_empty"
  by (simp add: index_sound_def index_empty_def keyed_sets_def)

lemma index_sound_add: "index_sound idx \<Longrightarrow> index_sound (index_add idx b)"
  unfolding index_sound_def
  using keyed_sets_insert [of "by_author idx" "\<lambda>b. lower (author b)" b]
    keyed_sets_insert [of "by_year idx" year b]
  by (auto simp: index_add_def bucket_insert_mono bucket_insert_self)

lemma index_sound_remove:
  assumes "index_sound idx"
  shows "index_sound (snd (index_remove idx x))"
proof (cases "by_isbn idx (isbn_of x)")
  case None
  with assms show ?thesis by (simp add: index_remove_def)
next
  case (Some book)
  from assms Some have ib: "isbn book = isbn_of x" by (simp add: index_sound_def)
  have "x' \<noteq> book" if "by_isbn idx k = Some x'" "k \<noteq> isbn_of x" for k x'
    using that assms ib by (auto simp: index_sound_def)
  with assms Some show ?thesis
    unfolding index_sound_def
    by (auto simp: index_remove_def keyed_sets_discard bucket_discard)
qed

lemma index_sound_add_each: "index_sound idx \<Longrightarrow> index_sound (add_each idx bs)"
  by (induction bs arbitrary: idx) (simp_all add: index_sound_add)

lemma index_sound_step: "index_sound idx \<Longrightarrow> index_sound (index_step idx op)"
  by (cases op)
    (simp_all add: index_sound_add index_sound_remove rebuild_any index_sound_add_each
      index_sound_empty)

lemma index_sound_run: "index_sound idx \<Longrightarrow> index_sound (index_run idx ops)"
  by (induction ops arbitrary: idx) (simp_all add: index_sound_step)

section \<open>Consistency of the three dictionaries\<close>

lemma index_run_sound: "index_sound (index_run index_empty ops)"
  using index_sound_empty by (rule index_sound_run)

text \<open>
  C5. The invariant of the claim (a book is in \<open>by_isbn\<close> if and only if it is in the sets
  of its author and year) does not hold after \<^verbatim>\<open>add\<close> is called with a second book of
  the same isbn: \<open>book_a\<close> stays in the sets of its author and of its year while
  \<open>by_isbn\<close> holds \<open>book_b\<close>, and it is still there after \<^verbatim>\<open>remove\<close> has emptied
  \<open>by_isbn\<close>. (\<open>index_run_sound\<close> is the half that does hold in every index built by
  the operations: from \<open>by_isbn\<close> to the sets, and no empty set.)
\<close>

theorem index_add_overwrite_leaves_stale_entry:
  "by_isbn (index_run index_empty [IndexAdd book_a, IndexAdd book_b]) (isbn book_a) = Some book_b \<and>
   book_a \<noteq> book_b \<and>
   book_a |\<in>| bucket (by_author (index_run index_empty [IndexAdd book_a, IndexAdd book_b]))
                 (lower (author book_a)) \<and>
   book_a |\<in>| bucket (by_year (index_run index_empty [IndexAdd book_a, IndexAdd book_b]))
                 (year book_a) \<and>
   by_isbn (index_run index_empty
              [IndexAdd book_a, IndexAdd book_b, IndexRemove (AnIsbn ''123'')]) = Map.empty \<and>
   book_a |\<in>| bucket (by_author (index_run index_empty
              [IndexAdd book_a, IndexAdd book_b, IndexRemove (AnIsbn ''123'')]))
                 (lower (author book_a))"
  by (simp add: library_defs lower_samples book_a_def book_b_def)

section \<open>Lookups by author\<close>

text \<open>
  C8. \<^verbatim>\<open>get_by_author\<close> does not return exactly the indexed books of the author: after
  \<^verbatim>\<open>add\<close> of \<open>book_a\<close>, \<^verbatim>\<open>add\<close> of \<open>book_b\<close> with the same isbn and \<^verbatim>\<open>remove\<close> of that isbn,
  \<open>by_isbn\<close> is empty, and the lookup of the author of \<open>book_a\<close>, in another casing,
  returns the collection of \<open>book_a\<close> and not the empty collection. The same calls made
  through \<^verbatim>\<open>Library\<close> leave \<open>book_b\<close> alone in the collection, and \<^verbatim>\<open>find_by_author\<close>
  returns \<open>book_a\<close>.
\<close>

theorem get_by_author_returns_replaced_book:
  "by_isbn (index_run index_empty
              [IndexAdd book_a, IndexAdd book_b, IndexRemove (AnIsbn ''123'')]) = Map.empty \<and>
   get_by_author (index_run index_empty
              [IndexAdd book_a, IndexAdd book_b, IndexRemove (AnIsbn ''123'')])
     ''LEO TOLSTOY'' (BookCollection [book_a]) \<and>
   \<not> get_by_author (index_run index_empty
              [IndexAdd book_a, IndexAdd book_b, IndexRemove (AnIsbn ''123'')])
     ''LEO TOLSTOY'' (BookCollection []) \<and>
   books (collection (library_run library_empty
              [AddBook book_a, AddBook book_b, RemoveBook ''123''])) = [book_b] \<and>
   by_isbn (indexes (library_run library_empty
              [AddBook book_a, AddBook book_b, RemoveBook ''123''])) = Map.empty \<and>
   find_by_author (library_run library_empty
              [AddBook book_a, AddBook book_b, RemoveBook ''123''])
     ''LEO TOLSTOY'' (BookCollection [book_a])"
  by (auto simp: find_by_author_def get_by_author_def collection_of_set_def
      library_defs lower_samples book_a_def book_b_def)

end
